theory Spec2Isabelle
  imports Main "HOL-Library.Multiset" "HOL-Library.Sublist"
begin

section \<open>The notifier: \<open>jQuery.mvc.notifier\<close> (jquery.mvc.js, lines 616--807)\<close>

text \<open>
  The notifier keeps three variables in its closure: \<open>observerMap\<close>, a table from
  notification names to arrays of observers; \<open>notificationQueue\<close>, a jQuery queue of
  delivery closures; and the counter \<open>notificationSync\<close>. Its public \<open>options\<close> hold
  \<open>maxSync\<close> and \<open>delay\<close>.

  An observer is the pair of a handler \<open>fn\<close> and a \<open>context\<close>; a notification is a
  \<open>name\<close> and a \<open>body\<close>. Handlers, contexts and bodies are values of the host language
  that the notifier never inspects, except that \<open>remove\<close> compares contexts with the
  operator \<open>==\<close>. They are type parameters here, and the comparison \<open>==\<close> is a
  parameter \<open>eq\<close> of \<open>notifier_remove\<close>: nothing is assumed about it.

  The table is a map from names to lists: \<open>observerMap[ n ]\<close> is \<open>observerMap st n\<close>,
  with \<open>None\<close> for \<open>undefined\<close>, and \<open>delete\<close> resets a name to \<open>None\<close>. Names are the
  table's own keys; the properties every object inherits from the host's
  \<open>Object.prototype\<close> are not part of the model.
\<close>

record ('f, 'c) Observer =
  fn :: 'f
  "context" :: 'c

record 'b Notification =
  name :: string
  body :: 'b

record ('f, 'c, 'b) notifier =
  observerMap :: "string \<rightharpoonup> ('f, 'c) Observer list"
  notificationQueue :: "(('f, 'c) Observer \<times> 'b Notification) list"
  notificationSync :: nat
  maxSync :: nat
  delay :: nat

text \<open>The notifier as the script leaves it when it is loaded: no observers, an empty
  queue, the counter at zero, \<open>maxSync: 5\<close> and \<open>delay: 10\<close>.\<close>

definition notifier_init :: "('f, 'c, 'b) notifier" where
  "notifier_init =
     \<lparr>observerMap = Map.empty, notificationQueue = [], notificationSync = 0,
      maxSync = 5, delay = 10\<rparr>"

subsection \<open>\<open>register\<close> (lines 663--670)\<close>

definition notifier_register ::
  "string \<Rightarrow> ('f, 'c) Observer \<Rightarrow> ('f, 'c, 'b) notifier \<Rightarrow> ('f, 'c, 'b) notifier" where
  "notifier_register notificationName observer st =
     (case observerMap st notificationName of
        Some observers \<Rightarrow>
          st\<lparr>observerMap := (observerMap st)(notificationName \<mapsto> observers @ [observer])\<rparr>
      | None \<Rightarrow>
          st\<lparr>observerMap := (observerMap st)(notificationName \<mapsto> [observer])\<rparr>)"

subsection \<open>\<open>remove\<close> (lines 677--702)\<close>

text \<open>
  The loop \<open>for (var i = 0, n = observers.length; i < n; ++i)\<close> works on the array in
  place. When the context at \<open>i\<close> matches, the last live element is copied over it, \<open>n\<close>
  drops by one and \<open>i\<close> is decremented, so that the \<open>++i\<close> of the loop header visits the
  same index again: in the recursion \<open>i\<close> stays as it is. Otherwise \<open>i\<close> advances. The loop
  returns the final \<open>n\<close> and the array. It reads \<open>observers[i]\<close> and \<open>observers[n - 1]\<close>
  only with \<open>i < n\<close>, and \<open>n\<close> starts as the length, so every read is in range.
\<close>

function remove_loop ::
  "('c \<Rightarrow> 'c \<Rightarrow> bool) \<Rightarrow> 'c \<Rightarrow> nat \<Rightarrow> nat \<Rightarrow> ('f, 'c) Observer list
     \<Rightarrow> nat \<times> ('f, 'c) Observer list" where
  "remove_loop eq ctx i n observers =
     (if i < n then
        (if eq (context (observers ! i)) ctx
         then remove_loop eq ctx i (n - 1) (observers[i := observers ! (n - 1)])
         else remove_loop eq ctx (i + 1) n observers)
      else (n, observers))"
  by pat_completeness auto
termination
  by (relation "measure (\<lambda>(eq, ctx, i, n, observers). n - i)") auto

text \<open>After the loop: \<open>delete observerMap[ notificationName ]\<close> when \<open>n === 0\<close>, and
  \<open>observers.length = n\<close> (truncation) otherwise.\<close>

definition notifier_remove ::
  "('c \<Rightarrow> 'c \<Rightarrow> bool) \<Rightarrow> string \<Rightarrow> 'c \<Rightarrow> ('f, 'c, 'b) notifier \<Rightarrow> ('f, 'c, 'b) notifier" where
  "notifier_remove eq notificationName ctx st =
     (case observerMap st notificationName of
        None \<Rightarrow> st
      | Some observers \<Rightarrow>
          (case remove_loop eq ctx 0 (length observers) observers of
             (n, observers') \<Rightarrow>
               if n = 0
               then st\<lparr>observerMap := (observerMap st)(notificationName := None)\<rparr>
               else st\<lparr>observerMap := (observerMap st)(notificationName \<mapsto> take n observers')\<rparr>))"

text \<open>The observers under a name, the empty list when the name is absent.\<close>

definition observers_of :: "('f, 'c, 'b) notifier \<Rightarrow> string \<Rightarrow> ('f, 'c) Observer list" where
  "observers_of st n = (case observerMap st n of None \<Rightarrow> [] | Some observers \<Rightarrow> observers)"

subsection \<open>\<open>notify\<close> and the queued delivery closures (lines 708--733)\<close>

text \<open>
  \<open>notify\<close> copies the observer array (\<open>observers.slice()\<close>) and appends one closure per
  element of the copy to the queue. A closure holds its \<open>observer\<close> and the
  \<open>notification\<close>; the queue is the list of these pairs, in the order of \<open>queue\<close> calls.
\<close>

definition notifier_notify ::
  "'b Notification \<Rightarrow> ('f, 'c, 'b) notifier \<Rightarrow> ('f, 'c, 'b) notifier" where
  "notifier_notify notification st =
     (case observerMap st (name notification) of
        None \<Rightarrow> st
      | Some observers \<Rightarrow>
          st\<lparr>notificationQueue :=
               notificationQueue st @ map (\<lambda>observer. (observer, notification)) observers\<rparr>)"

text \<open>
  What running the queue does is recorded as a trace. \<open>Call f c n\<close> is
  \<open>Observer.prototype.notify\<close> (lines 801--803): \<open>this.fn.call( this.context, notification )\<close>.
  \<open>Yield d\<close> is \<open>setTimeout( next, d )\<close>: control returns to the host and the queue goes
  on after \<open>d\<close> milliseconds. A handler is a function of the caller's; the model records
  that it is called and takes it to return. (The closure calls \<open>next\<close> only after the
  handler has returned, and the notifier catches nothing.) The queue itself is jQuery's:
  it runs the queued closures in the order of the \<open>queue\<close> calls, each one when its
  predecessor calls \<open>next\<close>.
\<close>

datatype ('f, 'c, 'b) event = Call 'f 'c "'b Notification" | Yield nat

definition Observer_notify :: "('f, 'c) Observer \<Rightarrow> 'b Notification \<Rightarrow> ('f, 'c, 'b) event" where
  "Observer_notify observer notification = Call (fn observer) (context observer) notification"

text \<open>The body of a queued closure: call the observer, add one to the counter, and then
  either reset the counter and yield, or go on with \<open>next()\<close> at once.\<close>

definition task ::
  "('f, 'c) Observer \<Rightarrow> 'b Notification \<Rightarrow> ('f, 'c, 'b) notifier
     \<Rightarrow> ('f, 'c, 'b) event list \<times> ('f, 'c, 'b) notifier" where
  "task observer notification st =
     (let st1 = st\<lparr>notificationSync := notificationSync st + 1\<rparr> in
      if notificationSync st1 > maxSync st1
      then ([Observer_notify observer notification, Yield (delay st1)],
            st1\<lparr>notificationSync := 0\<rparr>)
      else ([Observer_notify observer notification], st1))"

text \<open>One step of the queue (what \<open>next\<close> does): take the closure at the head and run it.
  On an empty queue nothing happens.\<close>

definition dequeue ::
  "('f, 'c, 'b) notifier \<Rightarrow> ('f, 'c, 'b) event list \<times> ('f, 'c, 'b) notifier" where
  "dequeue st =
     (case notificationQueue st of
        [] \<Rightarrow> ([], st)
      | (observer, notification) # rest \<Rightarrow> task observer notification (st\<lparr>notificationQueue := rest\<rparr>))"

text \<open>Running the queue until it is empty, closure after closure, with the trace of all
  of them. The recursion is on the closures still queued.\<close>

fun run_tasks ::
  "(('f, 'c) Observer \<times> 'b Notification) list \<Rightarrow> ('f, 'c, 'b) notifier
     \<Rightarrow> ('f, 'c, 'b) event list \<times> ('f, 'c, 'b) notifier" where
  "run_tasks [] st = ([], st)"
| "run_tasks ((observer, notification) # rest) st =
     (case task observer notification st of
        (evs, st1) \<Rightarrow> (case run_tasks rest st1 of (evs', st2) \<Rightarrow> (evs @ evs', st2)))"

definition drain ::
  "('f, 'c, 'b) notifier \<Rightarrow> ('f, 'c, 'b) event list \<times> ('f, 'c, 'b) notifier" where
  "drain st = run_tasks (notificationQueue st) (st\<lparr>notificationQueue := []\<rparr>)"




subsection \<open>Interleavings of the notifier's operations\<close>

text \<open>
  Callers and handlers reach the notifier only through \<open>register\<close>, \<open>remove\<close> and
  \<open>notify\<close>; the queue advances by \<open>next\<close>. A run of the program is a sequence of these
  four actions, each applied to the trace so far and the notifier state. Whatever a
  handler does to the notifier during its call appears as actions that follow the \<open>Next\<close>
  that called it.
\<close>

datatype ('f, 'c, 'b) action =
    Register string "('f, 'c) Observer"
  | Remove string 'c
  | Notify "'b Notification"
  | Next

fun perform ::
  "('c \<Rightarrow> 'c \<Rightarrow> bool) \<Rightarrow> ('f, 'c, 'b) action
     \<Rightarrow> ('f, 'c, 'b) event list \<times> ('f, 'c, 'b) notifier
     \<Rightarrow> ('f, 'c, 'b) event list \<times> ('f, 'c, 'b) notifier" where
  "perform eq (Register n ob) (tr, st) = (tr, notifier_register n ob st)"
| "perform eq (Remove n c) (tr, st) = (tr, notifier_remove eq n c st)"
| "perform eq (Notify nt) (tr, st) = (tr, notifier_notify nt st)"
| "perform eq Next (tr, st) = (case dequeue st of (evs, st') \<Rightarrow> (tr @ evs, st'))"

definition run ::
  "('c \<Rightarrow> 'c \<Rightarrow> bool) \<Rightarrow> ('f, 'c, 'b) action list
     \<Rightarrow> ('f, 'c, 'b) event list \<times> ('f, 'c, 'b) notifier
     \<Rightarrow> ('f, 'c, 'b) event list \<times> ('f, 'c, 'b) notifier" where
  "run eq acts s = fold (perform eq) acts s"

text \<open>The table never maps a name to an empty array.\<close>

definition registry_inv :: "('f, 'c, 'b) notifier \<Rightarrow> bool" where
  "registry_inv st = (\<forall>n. observerMap st n \<noteq> Some [])"

text \<open>The bursts of a trace: the numbers of handler calls in its stretches between
  yields, the stretch before the first yield and the one after the last included.\<close>

fun bursts :: "('f, 'c, 'b) event list \<Rightarrow> nat list" where
  "bursts [] = [0]"
| "bursts (Call f c n # evs) = (case bursts evs of [] \<Rightarrow> [1] | b # bs \<Rightarrow> Suc b # bs)"
| "bursts (Yield d # evs) = 0 # bursts evs"


section \<open>The constructors \<open>Notification\<close> and \<open>Observer\<close> (lines 742--781)\<close>

text \<open>
  Both constructors start with the guard
  \<open>if ( !( this && this.hasOwnProperty && this instanceof $.mvc.Notification ) )\<close>
  and, when it fails, return \<open>new $.mvc.Notification( name, body )\<close>. What the guard reads
  of the receiver \<open>this\<close> is whether it is an object at all, whether its property
  \<open>hasOwnProperty\<close> is truthy, and whether it inherits from the constructor's prototype.
  A receiver is \<open>Undefined\<close> (a plain call in strict code) or \<open>Object h i\<close> with the last
  two answers. The call \<open>$.mvc.Notification( name, body )\<close> has the namespace object
  \<open>$.mvc\<close> as its receiver: \<open>Object True False\<close>. The object that \<open>new\<close> creates
  inherits from the prototype, an object literal, and through it \<open>hasOwnProperty\<close>:
  \<open>Object True True\<close>.

  A call either returns an object (\<open>Returned\<close>) or returns nothing after assigning the
  fields of \<open>this\<close> (\<open>Initialised\<close>, with the fields assigned); \<open>new\<close> yields the returned
  object in the first case and \<open>this\<close> in the second.
\<close>

datatype receiver = Undefined | Object bool bool

fun truthy :: "receiver \<Rightarrow> bool" where
  "truthy Undefined = False"
| "truthy (Object h i) = True"

fun hasOwnProperty :: "receiver \<Rightarrow> bool" where
  "hasOwnProperty Undefined = False"
| "hasOwnProperty (Object h i) = h"

fun instanceof :: "receiver \<Rightarrow> bool" where
  "instanceof Undefined = False"
| "instanceof (Object h i) = i"

datatype 'a outcome = Returned 'a | Initialised 'a

function mvc_Notification :: "receiver \<Rightarrow> string \<Rightarrow> 'b \<Rightarrow> 'b Notification outcome" where
  "mvc_Notification this nm bd =
     (if \<not> (truthy this \<and> hasOwnProperty this \<and> instanceof this)
      then Returned (case mvc_Notification (Object True True) nm bd of
                       Returned obj \<Rightarrow> obj | Initialised obj \<Rightarrow> obj)
      else Initialised \<lparr>name = nm, body = bd\<rparr>)"
  by pat_completeness auto
termination
  by (relation "measure (\<lambda>(this, nm, bd).
        if truthy this \<and> hasOwnProperty this \<and> instanceof this then 0 else 1)") auto

definition new_Notification :: "string \<Rightarrow> 'b \<Rightarrow> 'b Notification" where
  "new_Notification nm bd =
     (case mvc_Notification (Object True True) nm bd of
        Returned obj \<Rightarrow> obj | Initialised obj \<Rightarrow> obj)"

function mvc_Observer :: "receiver \<Rightarrow> 'f \<Rightarrow> 'c \<Rightarrow> ('f, 'c) Observer outcome" where
  "mvc_Observer this f c =
     (if \<not> (truthy this \<and> hasOwnProperty this \<and> instanceof this)
      then Returned (case mvc_Observer (Object True True) f c of
                       Returned obj \<Rightarrow> obj | Initialised obj \<Rightarrow> obj)
      else Initialised \<lparr>fn = f, context = c\<rparr>)"
  by pat_completeness auto
termination
  by (relation "measure (\<lambda>(this, f, c).
        if truthy this \<and> hasOwnProperty this \<and> instanceof this then 0 else 1)") auto

definition new_Observer :: "'f \<Rightarrow> 'c \<Rightarrow> ('f, 'c) Observer" where
  "new_Observer f c =
     (case mvc_Observer (Object True True) f c of
        Returned obj \<Rightarrow> obj | Initialised obj \<Rightarrow> obj)"

section \<open>Modules: \<open>jQuery.mvc.module\<close> and \<open>jQuery.mvc.Module\<close> (lines 32--169)\<close>

subsection \<open>Values and objects\<close>

text \<open>
  Prototypes and option hashes are objects whose identity matters: \<open>module\<close> writes
  \<open>__super\<close> on function objects, and the options of a definition and of its instances
  must not be the same objects. Every object has an address. A value is \<open>undefined\<close>, a
  primitive (written as its source text), a function object, some other object that is
  neither a plain object nor an array (an instance of a constructor, a DOM node, a jQuery
  object), or a plain object or array with its address and its properties in enumeration
  order. Two occurrences of an address are the same object.
\<close>

datatype kind = PlainObject | Array

datatype jsval =
    JUndefined
  | JPrim string
  | JFun nat
  | JRef nat
  | JObj nat kind "(string \<times> jsval) list"

type_synonym props = "(string \<times> jsval) list"

text \<open>\<open>$.isFunction\<close>, the property read \<open>obj[ k ]\<close> (\<open>undefined\<close> when there is no such
  property) and the property write \<open>obj[ k ] = v\<close>.\<close>

fun isFunction :: "jsval \<Rightarrow> bool" where
  "isFunction (JFun f) = True"
| "isFunction v = False"

definition lookup :: "props \<Rightarrow> string \<Rightarrow> jsval" where
  "lookup ps k = (case map_of ps k of None \<Rightarrow> JUndefined | Some v \<Rightarrow> v)"

fun assign :: "string \<Rightarrow> jsval \<Rightarrow> props \<Rightarrow> props" where
  "assign k v [] = [(k, v)]"
| "assign k v ((k', v') # ps) = (if k = k' then (k, v) # ps else (k', v') # assign k v ps)"

fun props_of :: "jsval \<Rightarrow> props" where
  "props_of (JObj a kd ps) = ps"
| "props_of v = []"

fun isPlain :: "jsval \<Rightarrow> bool" where
  "isPlain (JObj a kd ps) = True"
| "isPlain v = False"

fun kind_of :: "jsval \<Rightarrow> kind" where
  "kind_of (JObj a kd ps) = kd"
| "kind_of v = PlainObject"

fun address_of :: "jsval \<Rightarrow> nat option" where
  "address_of (JObj a kd ps) = Some a"
| "address_of (JFun f) = Some f"
| "address_of (JRef r) = Some r"
| "address_of v = None"

subsection \<open>The deep \<open>jQuery.extend\<close>\<close>

text \<open>
  \<open>$.extend( true, target, source, ... )\<close> belongs to jQuery, not to this repository. It
  is modelled after jQuery's code and documentation, for one source at a time:
  \<^verbatim>\<open>
  for ( name in options ) {
      src = target[ name ];  copy = options[ name ];
      if ( target === copy ) { continue; }
      if ( deep && copy && ( jQuery.isPlainObject(copy) || (copyIsArray = jQuery.isArray(copy)) ) ) {
          if ( copyIsArray ) { clone = src && jQuery.isArray(src) ? src : []; }
          else { clone = src && jQuery.isPlainObject(src) ? src : {}; }
          target[ name ] = jQuery.extend( deep, clone, copy );
      } else if ( copy !== undefined ) {
          target[ name ] = copy;
      }
  }
  \<close>
  (jQuery's \<open>name\<close> is \<open>key\<close> below.) A plain object or array in the source is merged
  into the target's value of the same kind under that name, in place, or else into a new
  empty object; every other value but \<open>undefined\<close> is assigned as it is, functions and
  other objects by reference.
  \<open>extend_props nxt t target options\<close> merges the properties \<open>options\<close> of one source into
  the properties \<open>target\<close> of the object at address \<open>t\<close>. New objects take their addresses
  from the counter \<open>nxt\<close>, and the counter is returned with the merged properties.
\<close>

fun clone_for :: "nat \<Rightarrow> kind \<Rightarrow> jsval \<Rightarrow> nat \<times> props \<times> nat" where
  "clone_for nxt kd (JObj b kd' sprops) =
     (if kd' = kd then (b, sprops, nxt) else (nxt, [], Suc nxt))"
| "clone_for nxt kd src = (nxt, [], Suc nxt)"

function extend_props :: "nat \<Rightarrow> nat \<Rightarrow> props \<Rightarrow> props \<Rightarrow> nat \<times> props" where
  "extend_props nxt t target [] = (nxt, target)"
| "extend_props nxt t target ((key, copy) # options) =
     (if address_of copy = Some t then extend_props nxt t target options
      else if isPlain copy then
        (case clone_for nxt (kind_of copy) (lookup target key) of
           (clone, cprops, nxt1) \<Rightarrow>
             (case extend_props nxt1 clone cprops (props_of copy) of
                (nxt2, merged) \<Rightarrow>
                  extend_props nxt2 t (assign key (JObj clone (kind_of copy) merged) target) options))
      else if copy \<noteq> JUndefined then extend_props nxt t (assign key copy target) options
      else extend_props nxt t target options)"
  by pat_completeness auto
termination
  apply (relation "measure (\<lambda>(nxt, t, target, options). size_list (size_prod (\<lambda>_. 0) size) options)")
      apply auto
  subgoal for nxt t target key copy options
    by (cases copy) auto
  done

subsection \<open>\<open>jQuery.mvc.module\<close> (lines 32--82)\<close>

text \<open>
  A constructor function is its function object, its \<open>prototype\<close> object as a value (a
  plain object for \<open>jQuery.mvc.Module\<close>, whose prototype is an object literal; an object
  that inherits from the base prototype for every derived module) and the enumerable
  properties a read of the prototype finds, its own and the inherited ones. The
  properties of the host's \<open>Object.prototype\<close> are not listed. The definition of a module,
  \<open>proto\<close>, and the option hashes are plain objects, given by their properties; a value
  that is not a plain object or array contributes no properties as a source of \<open>extend\<close>
  (\<open>undefined\<close> is skipped by \<open>extend\<close> itself).

  The global state of this part: the allocation counter, the \<open>__super\<close> property of every
  function object, and the namespaces \<open>$.mvc[ namespace ]\<close> that \<open>module\<close> fills.
\<close>

record constructor =
  fn_object :: nat
  prototype_object :: jsval
  prototype :: props

record mvc =
  next_address :: nat
  super_of :: "nat \<rightharpoonup> jsval"
  namespaces :: "string \<rightharpoonup> (string \<rightharpoonup> nat)"

text \<open>\<open>name.split( "." )\<close>.\<close>

fun split_dot :: "string \<Rightarrow> string list" where
  "split_dot [] = [[]]"
| "split_dot (c # cs) =
     (if c = CHR ''.'' then [] # split_dot cs
      else (case split_dot cs of [] \<Rightarrow> [[c]] | w # ws \<Rightarrow> (c # w) # ws))"

text \<open>
  The callback of \<open>$.each( namespaceObj[ name ].prototype, function( name, fn ) ... )\<close>
  (lines 71--79), applied to one property and the \<open>__super\<close> store. \<open>fn !== fnSuper\<close>
  compares two function objects by identity, that is by address.
\<close>

definition super_step :: "props \<Rightarrow> string \<times> jsval \<Rightarrow> (nat \<rightharpoonup> jsval) \<Rightarrow> (nat \<rightharpoonup> jsval)" where
  "super_step base_prototype = (\<lambda>(nm, fnv) supers.
     if nm = ''constructor'' then supers
     else (let fnSuper = lookup base_prototype nm in
           case fnv of
             JFun f \<Rightarrow> if fnv \<noteq> fnSuper \<and> isFunction fnSuper then supers(f \<mapsto> fnSuper) else supers
           | _ \<Rightarrow> supers))"

text \<open>
  \<open>module( name, base, proto )\<close>, statement by statement: the name and the namespace;
  \<open>baseObj = new base()\<close>, a new object without properties of its own that inherits the
  base prototype's; \<open>baseObj.options = $.extend( true, {}, baseObj.options )\<close>; the new
  constructor function; the prototype \<open>$.extend( true, baseObj, { name, namespace, base,
  constructor }, proto )\<close>; the \<open>$.each\<close> loop over the prototype; and the entry in the
  namespace, when there is one.
\<close>

definition mvc_module :: "string \<Rightarrow> constructor \<Rightarrow> props \<Rightarrow> mvc \<Rightarrow> constructor \<times> mvc" where
  "mvc_module qname base proto st =
     (let fullname = split_dot qname;
          name' = (case fullname of
                    [] \<Rightarrow> []
                  | [f0] \<Rightarrow> f0
                  | f0 # f1 # rest \<Rightarrow> if f1 \<noteq> [] then f1 else f0);
          namespace = (case fullname of [] \<Rightarrow> [] | f0 # rest \<Rightarrow> if f0 = name' then [] else f0);
          baseObj = next_address st;
          optionsObj = Suc baseObj;
          (n1, options) =
             extend_props (Suc optionsObj) optionsObj []
               (props_of (lookup (prototype base) ''options''));
          baseProps = assign ''options'' (JObj optionsObj PlainObject options) (prototype base);
          module_fn = n1;
          (n2, p1) = extend_props (Suc module_fn) baseObj baseProps
                       [(''name'', JPrim name'), (''namespace'', JPrim namespace),
                        (''base'', prototype_object base), (''constructor'', JFun module_fn)];
          (n3, p2) = extend_props n2 baseObj p1 proto
      in (\<lparr>fn_object = module_fn, prototype_object = JRef baseObj, prototype = p2\<rparr>,
          st\<lparr>next_address := n3,
             super_of := fold (super_step (prototype base)) p2 (super_of st),
             namespaces :=
               (if namespace = [] then namespaces st
                else (namespaces st)(namespace \<mapsto>
                       (case namespaces st namespace of None \<Rightarrow> Map.empty | Some ns \<Rightarrow> ns)
                         (name' \<mapsto> module_fn)))\<rparr>))"

subsection \<open>\<open>jQuery.mvc.Module\<close> (lines 92--169)\<close>

text \<open>
  The root constructor and its prototype, an object literal with \<open>name\<close>, \<open>options\<close>,
  \<open>_createModule\<close>, \<open>_super\<close>, \<open>getName\<close> and \<open>_notify\<close>. Its objects take the addresses 0
  to 6, and the state after the script has defined it allocates from 7.
\<close>

definition Module :: constructor where
  "Module =
     \<lparr>fn_object = 0,
      prototype_object =
        JObj 1 PlainObject
          [(''name'', JPrim ''module''), (''options'', JObj 2 PlainObject []),
           (''_createModule'', JFun 3), (''_super'', JFun 4), (''getName'', JFun 5),
           (''_notify'', JFun 6)],
      prototype =
          [(''name'', JPrim ''module''), (''options'', JObj 2 PlainObject []),
           (''_createModule'', JFun 3), (''_super'', JFun 4), (''getName'', JFun 5),
           (''_notify'', JFun 6)]\<rparr>"

definition mvc_init :: mvc where
  "mvc_init = \<lparr>next_address = 7, super_of = Map.empty, namespaces = Map.empty\<rparr>"

text \<open>
  An instance has the fields \<open>_createModule\<close> assigns: \<open>this.name = name\<close> and
  \<open>this.options = $.extend( true, {}, this.options, options )\<close> (lines 119--124), where the
  \<open>this.options\<close> that is read is the prototype's. \<open>getName\<close> returns \<open>this.name\<close>.
\<close>

record module_instance =
  iname :: string
  ioptions :: jsval

definition defaults :: "constructor \<Rightarrow> jsval" where
  "defaults c = lookup (prototype c) ''options''"

definition Module_createModule ::
  "constructor \<Rightarrow> string \<Rightarrow> jsval \<Rightarrow> nat \<Rightarrow> module_instance \<times> nat" where
  "Module_createModule c nm options nxt =
     (let (n1, p1) = extend_props (Suc nxt) nxt [] (props_of (defaults c));
          (n2, p2) = extend_props n1 nxt p1 (props_of options)
      in (\<lparr>iname = nm, ioptions = JObj nxt PlainObject p2\<rparr>, n2))"

definition getName :: "'a module_instance_scheme \<Rightarrow> string" where
  "getName this = iname this"

text \<open>
  \<open>_super\<close> (lines 144--152). \<open>arguments.callee.caller\<close> is the function object that called
  \<open>_super\<close>, or \<open>null\<close> when the call came from no function. \<open>apply g this args\<close> stands
  for \<open>g.apply( this, args )\<close>, whatever the function \<open>g\<close> does and returns; the \<open>throw\<close> is
  the error \<open>NoSuperImplementation\<close>.
\<close>

datatype error = NoSuperImplementation

definition Module_super ::
  "(nat \<Rightarrow> 'this \<Rightarrow> 'args \<Rightarrow> 'r) \<Rightarrow> (nat \<rightharpoonup> jsval) \<Rightarrow> nat option \<Rightarrow> 'this \<Rightarrow> 'args
     \<Rightarrow> error + 'r" where
  "Module_super apply supers caller this args =
     (case caller of
        None \<Rightarrow> Inl NoSuperImplementation
      | Some c \<Rightarrow>
          (case supers c of
             Some (JFun g) \<Rightarrow> Inr (apply g this args)
           | _ \<Rightarrow> Inl NoSuperImplementation))"

subsection \<open>\<open>jQuery.mvc.Proxy\<close> (lines 296--321)\<close>

text \<open>
  The script derives the base proxy at load time:
  \<open>$.mvc.Proxy = $.mvc.module( "Proxy", $.mvc.Module, { data: null, getData: ...,
  _createModule: ..., _register: ..., _remove: ... } )\<close>. The four functions of the object
  literal take the addresses 7 to 10.
\<close>

definition Proxy_proto :: props where
  "Proxy_proto =
     [(''data'', JPrim ''null''), (''getData'', JFun 7), (''_createModule'', JFun 8),
      (''_register'', JFun 9), (''_remove'', JFun 10)]"

definition Proxy_loaded :: "constructor \<times> mvc" where
  "Proxy_loaded = mvc_module ''Proxy'' Module Proxy_proto (mvc_init\<lparr>next_address := 11\<rparr>)"

subsection \<open>Objects reached from a value\<close>


primrec plain_addrs :: "jsval \<Rightarrow> nat set" where
  "plain_addrs JUndefined = {}"
| "plain_addrs (JPrim s) = {}"
| "plain_addrs (JFun f) = {}"
| "plain_addrs (JRef r) = {}"
| "plain_addrs (JObj a kd ps) = insert a (\<Union> (set (map snd (map (map_prod id plain_addrs) ps))))"

definition props_addrs :: "props \<Rightarrow> nat set" where
  "props_addrs ps = (\<Union>p \<in> set ps. plain_addrs (snd p))"

primrec refs :: "jsval \<Rightarrow> nat set" where
  "refs JUndefined = {}"
| "refs (JPrim s) = {}"
| "refs (JFun f) = {f}"
| "refs (JRef r) = {r}"
| "refs (JObj a kd ps) = insert a (\<Union> (set (map snd (map (map_prod id refs) ps))))"

primrec put :: "nat \<Rightarrow> string \<Rightarrow> jsval \<Rightarrow> jsval \<Rightarrow> jsval" where
  "put a k v JUndefined = JUndefined"
| "put a k v (JPrim s) = JPrim s"
| "put a k v (JFun f) = JFun f"
| "put a k v (JRef r) = JRef r"
| "put a k v (JObj b kd ps) =
     JObj b kd (if a = b then assign k v (map (map_prod id (put a k v)) ps)
                else map (map_prod id (put a k v)) ps)"

section \<open>The registries \<open>jQuery.mvc.model\<close> and \<open>jQuery.mvc.view\<close>\<close>

text \<open>
  \<open>model.remove\<close> (lines 251--265) and \<open>view.remove\<close> (jquery.mvc.view.js, lines 74--93)
  take a name or a registered object: \<open>if ( typeof proxy === "object" ) { proxy =
  proxy.getName(); }\<close>. They look the name up, delete the entry under the name that the
  instance found reports with \<open>getName()\<close>, and then call its \<open>_remove()\<close>. The view first
  removes the mediator's observers, one \<open>notifier.remove( name, mediator )\<close> per
  notification interest. What \<open>_remove\<close> does is the instance's business; the model
  records each call of it with the state of the registry at the time of the call.
\<close>

datatype 'i module_ref = ByName string | ByObject 'i

record 'i model =
  proxyMap :: "string \<rightharpoonup> 'i"
  proxyGuid :: nat


definition model_remove ::
  "'a module_instance_scheme module_ref \<Rightarrow> 'a module_instance_scheme model
     \<Rightarrow> 'a module_instance_scheme model
        \<times> ('a module_instance_scheme \<times> 'a module_instance_scheme model) list" where
  "model_remove proxy st =
     (let key = (case proxy of ByObject obj \<Rightarrow> getName obj | ByName nm \<Rightarrow> nm) in
      case proxyMap st key of
        None \<Rightarrow> (st, [])
      | Some p \<Rightarrow>
          (let st' = st\<lparr>proxyMap := (proxyMap st)(getName p := None)\<rparr>
           in (st', [(p, st')])))"

record mediator = module_instance +
  element :: jsval
  notificationInterests :: "(string \<times> string) list"

record 'i view =
  mediatorMap :: "string \<rightharpoonup> 'i"
  mediatorGuid :: nat


definition view_remove ::
  "(mediator \<Rightarrow> mediator \<Rightarrow> bool) \<Rightarrow> mediator module_ref
     \<Rightarrow> mediator view \<times> ('f, mediator, 'b) notifier
     \<Rightarrow> (mediator view \<times> ('f, mediator, 'b) notifier)
        \<times> (mediator \<times> mediator view \<times> ('f, mediator, 'b) notifier) list" where
  "view_remove eq med = (\<lambda>(st, nst).
     (let key = (case med of ByObject obj \<Rightarrow> getName obj | ByName nm \<Rightarrow> nm) in
      case mediatorMap st key of
        None \<Rightarrow> ((st, nst), [])
      | Some m \<Rightarrow>
          (let nst' = fold (\<lambda>(nm, method). notifier_remove eq nm m) (notificationInterests m) nst;
               st' = st\<lparr>mediatorMap := (mediatorMap st)(getName m := None)\<rparr>
           in ((st', nst'), [(m, st', nst')]))))"

text \<open>
  \<open>register\<close> stores \<open>new proxy( name, options, data )\<close> under \<open>name\<close> (lines 239 and
  383), and \<open>_createModule\<close> sets \<open>this.name = name\<close>: every instance in a registry is
  stored under the name it reports.
\<close>

definition names_agree :: "(string \<rightharpoonup> 'a module_instance_scheme) \<Rightarrow> bool" where
  "names_agree m = (\<forall>k p. m k = Some p \<longrightarrow> getName p = k)"

section \<open>Example modules and instances\<close>

text \<open>
  A module \<open>examples.Counter\<close> derived from \<open>Module\<close>, whose options hold a number, a nested
  hash and a callback function; two hashes of overriding options; a module that uses one
  function object for two of its methods; and a proxy and a mediator as the registries
  hold them.
\<close>

definition Counter_proto :: props where
  "Counter_proto =
     [(''options'',
         JObj 7 PlainObject
           [(''count'', JPrim ''0''), (''limits'', JObj 8 PlainObject [(''max'', JPrim ''10'')]),
            (''onChange'', JFun 9)]),
      (''increment'', JFun 10)]"

definition Counter_loaded :: "constructor \<times> mvc" where
  "Counter_loaded =
     mvc_module ''examples.Counter'' Module Counter_proto (mvc_init\<lparr>next_address := 11\<rparr>)"

definition five :: jsval where
  "five = JObj 17 PlainObject [(''count'', JPrim ''5'')]"

definition nine :: jsval where
  "nine = JObj 18 PlainObject
            [(''count'', JPrim ''9''), (''limits'', JObj 19 PlainObject [(''min'', JPrim ''1'')])]"




definition counterMediator :: mediator where
  "counterMediator =
     \<lparr>iname = ''counterMediator'', ioptions = JObj 31 PlainObject [], element = JRef 32,
      notificationInterests = [(''counterchange'', ''_counterChange'')]\<rparr>"

section \<open>Properties of the notifier\<close>

subsection \<open>The removal loop\<close>

lemma take_Suc_update_filter:
  assumes "i < n" "n \<le> length xs" "\<not> P (xs ! i)"
  shows "mset (filter P (take (n - 1) (xs[i := xs ! (n - 1)]))) = mset (filter P (take n xs))"
proof -
  from assms obtain m where n: "n = Suc m" by (cases n) auto
  have tk: "take n xs = take m xs @ [xs ! m]"
    using assms n by (simp add: take_Suc_conv_app_nth)
  show ?thesis
  proof (cases "i = m")
    case True
    then show ?thesis using assms n tk by simp
  next
    case False
    with assms n have im: "i < m" by simp
    have len: "i < length (take m xs)" using im assms n by simp
    have "mset (filter P (take m (xs[i := xs ! m]))) =
          filter_mset P (mset ((take m xs)[i := xs ! m]))"
      by (simp add: take_update_swap)
    also have "\<dots> = filter_mset P (add_mset (xs ! m) (mset (take m xs) - {#take m xs ! i#}))"
      using len by (simp add: mset_update)
    also have "\<dots> = filter_mset P (add_mset (xs ! m) (mset (take m xs)))"
    proof -
      have "\<not> P (take m xs ! i)" using im assms by simp
      then have "filter_mset P (mset (take m xs) - {#take m xs ! i#}) = filter_mset P (mset (take m xs))"
        by (simp add: filter_diff_mset)
      then show ?thesis by simp
    qed
    finally show ?thesis using n tk by simp
  qed
qed

lemma remove_loop_spec:
  assumes "n \<le> length obs" "i \<le> n" "\<forall>j<i. \<not> eq (context (obs ! j)) c"
  shows "case remove_loop eq c i n obs of (n', obs') \<Rightarrow>
           n' \<le> length obs' \<and> (\<forall>j<n'. \<not> eq (context (obs' ! j)) c) \<and>
           mset (filter (\<lambda>ob. \<not> eq (context ob) c) (take n' obs')) =
           mset (filter (\<lambda>ob. \<not> eq (context ob) c) (take n obs))"
  using assms
proof (induction eq c i n obs rule: remove_loop.induct)
  case (1 eq c i n obs)
  show ?case
  proof (cases "i < n")
    case False
    with "1.prems" show ?thesis by (simp add: remove_loop.simps[of eq c i n obs])
  next
    case True
    show ?thesis
    proof (cases "eq (context (obs ! i)) c")
      case m: True
      have p: "\<forall>j<i. \<not> eq (context (obs[i := obs ! (n - 1)] ! j)) c"
        using "1.prems" by simp
      have ih: "case remove_loop eq c i (n - 1) (obs[i := obs ! (n - 1)]) of (n', obs') \<Rightarrow>
           n' \<le> length obs' \<and> (\<forall>j<n'. \<not> eq (context (obs' ! j)) c) \<and>
           mset (filter (\<lambda>ob. \<not> eq (context ob) c) (take n' obs')) =
           mset (filter (\<lambda>ob. \<not> eq (context ob) c) (take (n - 1) (obs[i := obs ! (n - 1)])))"
        using "1.IH"(1)[OF True m] "1.prems" True p by simp
      have "mset (filter (\<lambda>ob. \<not> eq (context ob) c) (take (n - 1) (obs[i := obs ! (n - 1)]))) =
            mset (filter (\<lambda>ob. \<not> eq (context ob) c) (take n obs))"
        using take_Suc_update_filter[of i n obs "\<lambda>ob. \<not> eq (context ob) c"] True "1.prems" m by simp
      with ih show ?thesis using True m
        by (simp add: remove_loop.simps[of eq c i n obs] split: prod.splits)
    next
      case nm: False
      have p: "\<forall>j<i + 1. \<not> eq (context (obs ! j)) c"
        using "1.prems" nm by (auto simp: less_Suc_eq)
      have ih: "case remove_loop eq c (i + 1) n obs of (n', obs') \<Rightarrow>
           n' \<le> length obs' \<and> (\<forall>j<n'. \<not> eq (context (obs' ! j)) c) \<and>
           mset (filter (\<lambda>ob. \<not> eq (context ob) c) (take n' obs')) =
           mset (filter (\<lambda>ob. \<not> eq (context ob) c) (take n obs))"
        using "1.IH"(2)[OF True nm] "1.prems" True p by simp
      then show ?thesis using True nm
        by (simp add: remove_loop.simps[of eq c i n obs])
    qed
  qed
qed


declare remove_loop.simps [simp del]

lemma remove_loop_result:
  assumes "remove_loop eq c 0 (length obs) obs = (n', obs')"
  shows "n' \<le> length obs' \<and> (\<forall>j<n'. \<not> eq (context (obs' ! j)) c) \<and>
         mset (take n' obs') = mset (filter (\<lambda>ob. \<not> eq (context ob) c) obs)"
proof -
  have s: "n' \<le> length obs' \<and> (\<forall>j<n'. \<not> eq (context (obs' ! j)) c) \<and>
           mset (filter (\<lambda>ob. \<not> eq (context ob) c) (take n' obs')) =
           mset (filter (\<lambda>ob. \<not> eq (context ob) c) (take (length obs) obs))"
    using remove_loop_spec[of "length obs" obs 0 eq c] assms by simp
  then have "\<forall>x \<in> set (take n' obs'). \<not> eq (context x) c"
    by (auto simp: in_set_conv_nth)
  then have "filter (\<lambda>ob. \<not> eq (context ob) c) (take n' obs') = take n' obs'"
    by (simp add: filter_id_conv)
  with s show ?thesis by simp
qed


lemma observers_of_remove:
  "mset (observers_of (notifier_remove eq e c st) e) =
   mset (filter (\<lambda>ob. \<not> eq (context ob) c) (observers_of st e))"
proof (cases "observerMap st e")
  case None
  then show ?thesis by (simp add: notifier_remove_def observers_of_def)
next
  case (Some obs)
  obtain n' obs' where r: "remove_loop eq c 0 (length obs) obs = (n', obs')"
    by (cases "remove_loop eq c 0 (length obs) obs")
  from remove_loop_result[OF r] have
    m: "mset (take n' obs') = mset (filter (\<lambda>ob. \<not> eq (context ob) c) obs)" by simp
  show ?thesis
  proof (cases "n' = 0")
    case True
    with m have "mset (filter (\<lambda>ob. \<not> eq (context ob) c) obs) = {#}" by simp
    with True Some r show ?thesis by (simp add: notifier_remove_def observers_of_def)
  next
    case False
    with Some r m show ?thesis by (simp add: notifier_remove_def observers_of_def)
  qed
qed

lemma remove_other_name:
  "e' \<noteq> e \<Longrightarrow> observerMap (notifier_remove eq e c st) e' = observerMap st e'"
  by (simp add: notifier_remove_def split: option.splits prod.splits)





lemma registry_inv_remove_key:
  "observerMap (notifier_remove eq e c st) e \<noteq> Some []"
proof (cases "observerMap st e")
  case None
  then show ?thesis by (simp add: notifier_remove_def)
next
  case (Some obs)
  obtain n' obs' where r: "remove_loop eq c 0 (length obs) obs = (n', obs')"
    by (cases "remove_loop eq c 0 (length obs) obs")
  from remove_loop_result[OF r] have "n' \<le> length obs'" by simp
  then have "n' \<noteq> 0 \<Longrightarrow> take n' obs' \<noteq> []" by auto
  with Some r show ?thesis by (simp add: notifier_remove_def)
qed


subsection \<open>Registration, notification and the queue\<close>

lemma register_observers_of:
  "observers_of (notifier_register e ob st) e = observers_of st e @ [ob]"
  by (simp add: notifier_register_def observers_of_def split: option.splits)

lemma register_other_name:
  "e' \<noteq> e \<Longrightarrow> observerMap (notifier_register e ob st) e' = observerMap st e'"
  by (simp add: notifier_register_def split: option.splits)

lemma register_present: "observerMap (notifier_register e ob st) e \<noteq> None"
  by (simp add: notifier_register_def split: option.splits)







lemma notify_frame:
  "observerMap (notifier_notify nt st) = observerMap st \<and>
   notificationSync (notifier_notify nt st) = notificationSync st \<and>
   maxSync (notifier_notify nt st) = maxSync st \<and>
   delay (notifier_notify nt st) = delay st"
  by (simp add: notifier_notify_def split: option.splits)






lemma task_frame:
  "notificationQueue (snd (task ob nt st)) = notificationQueue st \<and>
   observerMap (snd (task ob nt st)) = observerMap st \<and>
   maxSync (snd (task ob nt st)) = maxSync st \<and>
   delay (snd (task ob nt st)) = delay st"
  by (simp add: task_def Let_def)







subsection \<open>Interleavings\<close>




text \<open>Running the queue to its end is taking \<open>next\<close> once for every queued closure.\<close>

lemma task_queue_update:
  "task ob nt (st\<lparr>notificationQueue := q\<rparr>) =
     (fst (task ob nt st), (snd (task ob nt st))\<lparr>notificationQueue := q\<rparr>)"
  by (simp add: task_def Let_def)

lemma run_tasks_queue_update:
  "run_tasks ts (st\<lparr>notificationQueue := q\<rparr>) =
     (fst (run_tasks ts st), (snd (run_tasks ts st))\<lparr>notificationQueue := q\<rparr>)"
proof (induction ts arbitrary: st)
  case Nil
  then show ?case by simp
next
  case (Cons t ts)
  obtain ob nt where t: "t = (ob, nt)" by (cases t)
  show ?case
    using Cons.IH[of "snd (task ob nt st)"] t
    by (simp add: task_queue_update split: prod.splits)
qed

lemma next_steps_run_tasks:
  "notificationQueue st = ts \<Longrightarrow>
   run eq (replicate (length ts) Next) (tr, st) =
     (tr @ fst (run_tasks ts (st\<lparr>notificationQueue := []\<rparr>)),
      snd (run_tasks ts (st\<lparr>notificationQueue := []\<rparr>)))"
proof (induction ts arbitrary: st tr)
  case Nil
  then show ?case by (simp add: run_def)
next
  case (Cons t ts)
  obtain ob nt where t: "t = (ob, nt)" by (cases t)
  let ?st1 = "snd (task ob nt (st\<lparr>notificationQueue := ts\<rparr>))"
  let ?evs = "fst (task ob nt (st\<lparr>notificationQueue := ts\<rparr>))"
  have q1: "notificationQueue ?st1 = ts"
    using task_frame[of ob nt "st\<lparr>notificationQueue := ts\<rparr>"] by simp
  have step: "perform eq Next (tr, st) = (tr @ ?evs, ?st1)"
    using Cons.prems t by (simp add: dequeue_def split: prod.splits)
  have ih: "run eq (replicate (length ts) Next) (tr @ ?evs, ?st1) =
     ((tr @ ?evs) @ fst (run_tasks ts (?st1\<lparr>notificationQueue := []\<rparr>)),
      snd (run_tasks ts (?st1\<lparr>notificationQueue := []\<rparr>)))"
    by (rule Cons.IH[OF q1])
  have e: "?evs = fst (task ob nt (st\<lparr>notificationQueue := []\<rparr>))"
    by (simp add: task_queue_update)
  have s: "?st1\<lparr>notificationQueue := []\<rparr> = snd (task ob nt (st\<lparr>notificationQueue := []\<rparr>))"
    by (simp add: task_queue_update)
  show ?case
    using step ih e s t by (simp add: run_def split: prod.splits)
qed

lemma drain_is_repeated_next:
  "run eq (replicate (length (notificationQueue st)) Next) ([], st) = drain st"
  using next_steps_run_tasks[of st "notificationQueue st" eq "[]"] by (simp add: drain_def)

subsection \<open>The table invariant\<close>

lemma registry_inv_init: "registry_inv notifier_init"
  by (simp add: registry_inv_def notifier_init_def)

lemma registry_inv_register: "registry_inv st \<Longrightarrow> registry_inv (notifier_register e ob st)"
  by (auto simp: registry_inv_def notifier_register_def split: option.splits)

lemma registry_inv_remove: "registry_inv st \<Longrightarrow> registry_inv (notifier_remove eq e c st)"
  unfolding registry_inv_def
proof
  fix n
  assume a: "\<forall>n. observerMap st n \<noteq> Some []"
  show "observerMap (notifier_remove eq e c st) n \<noteq> Some []"
  proof (cases "n = e")
    case True
    then show ?thesis by (simp add: registry_inv_remove_key)
  next
    case False
    then show ?thesis using a by (simp add: remove_other_name)
  qed
qed

lemma registry_inv_dequeue: "registry_inv st \<Longrightarrow> registry_inv (snd (dequeue st))"
proof (cases "notificationQueue st")
  case Nil
  then show "registry_inv st \<Longrightarrow> ?thesis" by (simp add: dequeue_def)
next
  case (Cons t q)
  obtain ob nt where t: "t = (ob, nt)" by (cases t)
  show "registry_inv st \<Longrightarrow> ?thesis" using Cons t task_frame[of ob nt "st\<lparr>notificationQueue := q\<rparr>"]
    by (simp add: dequeue_def registry_inv_def)
qed

lemma registry_inv_perform:
  "registry_inv (snd s) \<Longrightarrow> registry_inv (snd (perform eq a s))"
proof (cases s)
  case (Pair tr st)
  assume i: "registry_inv (snd s)"
  show ?thesis
  proof (cases a)
    case (Register n ob)
    then show ?thesis using Pair i by (simp add: registry_inv_register)
  next
    case (Remove n c)
    then show ?thesis using Pair i by (simp add: registry_inv_remove)
  next
    case (Notify nt)
    then show ?thesis using Pair i by (simp add: registry_inv_def notify_frame)
  next
    case Next
    obtain evs st' where d: "dequeue st = (evs, st')" by (cases "dequeue st")
    then have "registry_inv st'" using Pair i registry_inv_dequeue[of st] by simp
    then show ?thesis using Next Pair d by simp
  qed
qed

lemma registry_inv_run:
  "registry_inv (snd s) \<Longrightarrow> registry_inv (snd (run eq acts s))"
  by (induction acts arbitrary: s) (simp_all add: run_def registry_inv_perform)

lemma register_then_remove_absent:
  assumes "observerMap st e = None" "eq (context ob) (context ob)"
  shows "observerMap (notifier_remove eq e (context ob) (notifier_register e ob st)) e = None"
proof -
  have "observers_of (notifier_register e ob st) e = [ob]"
  proof -
    have "observers_of st e = []" using assms(1) by (simp add: observers_of_def)
    then show ?thesis by (simp add: register_observers_of)
  qed
  then have "mset (observers_of (notifier_remove eq e (context ob) (notifier_register e ob st)) e) = {#}"
    using assms(2) by (simp add: observers_of_remove)
  then have "observers_of (notifier_remove eq e (context ob) (notifier_register e ob st)) e = []"
    by simp
  then show ?thesis
    using registry_inv_remove_key[of eq e "context ob" "notifier_register e ob st"]
    by (auto simp: observers_of_def split: option.splits)
qed

subsection \<open>Bursts\<close>

lemma run_tasks_bursts:
  assumes "notificationSync st \<le> maxSync st"
  shows "hd (bursts (fst (run_tasks q st))) + notificationSync st \<le> maxSync st + 1 \<and>
         (\<forall>b \<in> set (bursts (fst (run_tasks q st))). b \<le> maxSync st + 1) \<and> bursts (fst (run_tasks q st)) \<noteq> []"
  using assms
proof (induction q arbitrary: st)
  case Nil
  then show ?case by simp
next
  case (Cons t q)
  obtain ob nt where t: "t = (ob, nt)" by (cases t)
  let ?st1 = "st\<lparr>notificationSync := notificationSync st + 1\<rparr>"
  show ?case
  proof (cases "notificationSync st + 1 > maxSync st")
    case True
    let ?st2 = "?st1\<lparr>notificationSync := 0\<rparr>"
    have k: "task ob nt st = ([Observer_notify ob nt, Yield (delay st)], ?st2)"
      using True by (simp add: task_def Let_def)
    obtain evs' st3 where r: "run_tasks q ?st2 = (evs', st3)" by (cases "run_tasks q ?st2")
    have ih: "hd (bursts evs') + 0 \<le> maxSync st + 1 \<and> (\<forall>b \<in> set (bursts evs'). b \<le> maxSync st + 1) \<and> bursts evs' \<noteq> []"
      using Cons.IH[of ?st2] r by simp
    show ?thesis using t k r ih Cons.prems True
      by (simp add: Observer_notify_def)
  next
    case False
    have k: "task ob nt st = ([Observer_notify ob nt], ?st1)"
      using False by (simp add: task_def Let_def)
    obtain evs' st3 where r: "run_tasks q ?st1 = (evs', st3)" by (cases "run_tasks q ?st1")
    have ih: "hd (bursts evs') + (notificationSync st + 1) \<le> maxSync st + 1 \<and> (\<forall>b \<in> set (bursts evs'). b \<le> maxSync st + 1) \<and> bursts evs' \<noteq> []"
      using Cons.IH[of ?st1] r False by simp
    then obtain b bs where bb: "bursts evs' = b # bs" by (cases "bursts evs'") auto
    show ?thesis using t k r ih bb
      by (auto simp add: Observer_notify_def)
  qed
qed

lemma drain_bursts_bound:
  assumes "notificationSync st \<le> maxSync st"
  shows "\<forall>b \<in> set (bursts (fst (drain st))). b \<le> maxSync st + 1"
  using run_tasks_bursts[of "st\<lparr>notificationQueue := []\<rparr>" "notificationQueue st"] assms
  by (simp add: drain_def)

subsection \<open>The claims about the notifier\<close>


text \<open>An observer registered twice is called twice.\<close>

lemma registered_twice_called_twice:
  "fst (drain (notifier_notify \<lparr>name = ''tick'', body = 7::nat\<rparr>
     (fold (notifier_register ''tick'')
        [\<lparr>fn = 10::nat, context = 1::nat\<rparr>, \<lparr>fn = 10, context = 1\<rparr>] notifier_init))) =
   [Call 10 1 \<lparr>name = ''tick'', body = 7\<rparr>, Call 10 1 \<lparr>name = ''tick'', body = 7\<rparr>]"
  by (simp add: drain_def notifier_notify_def notifier_register_def notifier_init_def task_def
      Observer_notify_def)

text \<open>
  Claim C2 says that with \<open>maxSync = N\<close> at most \<open>N\<close> handlers are called between two
  yields. The closure yields when the counter, already incremented, is greater than
  \<open>maxSync\<close>: the yield comes after call \<open>N + 1\<close>. With the default \<open>maxSync = 5\<close> and
  seven observers, six handlers are called before the first yield. The documentation of
  the option (lines 639--646) calls \<open>maxSync\<close> the maximum number of observers to call in
  one synchronous iteration. What holds of the code is \<open>drain_bursts_bound\<close>: a burst
  has at most \<open>maxSync + 1\<close> calls.
\<close>

theorem six_calls_before_first_yield_at_maxSync_five:
  "maxSync (notifier_init :: (nat, nat, nat) notifier) = 5 \<and>
   fst (drain (notifier_notify \<lparr>name = ''tick'', body = 0::nat\<rparr>
     (fold (notifier_register ''tick'')
        [\<lparr>fn = 1::nat, context = 1::nat\<rparr>, \<lparr>fn = 2, context = 2\<rparr>, \<lparr>fn = 3, context = 3\<rparr>,
         \<lparr>fn = 4, context = 4\<rparr>, \<lparr>fn = 5, context = 5\<rparr>, \<lparr>fn = 6, context = 6\<rparr>,
         \<lparr>fn = 7, context = 7\<rparr>] notifier_init))) =
     [Call 1 1 \<lparr>name = ''tick'', body = 0\<rparr>, Call 2 2 \<lparr>name = ''tick'', body = 0\<rparr>,
      Call 3 3 \<lparr>name = ''tick'', body = 0\<rparr>, Call 4 4 \<lparr>name = ''tick'', body = 0\<rparr>,
      Call 5 5 \<lparr>name = ''tick'', body = 0\<rparr>, Call 6 6 \<lparr>name = ''tick'', body = 0\<rparr>,
      Yield 10, Call 7 7 \<lparr>name = ''tick'', body = 0\<rparr>] \<and>
   bursts (fst (drain (notifier_notify \<lparr>name = ''tick'', body = 0::nat\<rparr>
     (fold (notifier_register ''tick'')
        [\<lparr>fn = 1::nat, context = 1::nat\<rparr>, \<lparr>fn = 2, context = 2\<rparr>, \<lparr>fn = 3, context = 3\<rparr>,
         \<lparr>fn = 4, context = 4\<rparr>, \<lparr>fn = 5, context = 5\<rparr>, \<lparr>fn = 6, context = 6\<rparr>,
         \<lparr>fn = 7, context = 7\<rparr>] notifier_init)))) = [6, 1]"
  by (simp add: drain_def notifier_notify_def notifier_register_def notifier_init_def task_def
      Observer_notify_def)



text \<open>The same run, evaluated: the removed observer is still called, the one registered
  after the \<open>notify\<close> is not.\<close>

lemma snapshot_run_evaluated:
  "fst (run (=) [Remove ''tick'' 1, Register ''tick'' \<lparr>fn = 30, context = 3\<rparr>, Next, Next, Next]
        ([], notifier_notify \<lparr>name = ''tick'', body = 7::nat\<rparr>
           (notifier_register ''tick'' \<lparr>fn = 20::nat, context = 2::nat\<rparr>
             (notifier_register ''tick'' \<lparr>fn = 10, context = 1\<rparr> notifier_init))))
   = [Call 10 1 \<lparr>name = ''tick'', body = 7\<rparr>, Call 20 2 \<lparr>name = ''tick'', body = 7\<rparr>]"
  by code_simp

text \<open>
  Claim C6. From the initial notifier, after any sequence of \<open>register\<close> and \<open>remove\<close>
  calls (and of \<open>notify\<close> and \<open>next\<close>), no name of the table has an empty array: a name is
  either absent or has at least one observer. Both operations keep this invariant from
  any state that has it. In particular, registering an observer under a name that was
  absent and removing it by its context leaves the name absent, so that a \<open>has\<close> in the
  style of the other registries (\<open>observerMap[ name ] !== undefined\<close>) is false. The
  context has to be equal to itself under \<open>==\<close>, as every object is.
\<close>

theorem table_has_no_empty_entry:
  "registry_inv (snd (run eq acts ([], notifier_init))) \<and>
   (registry_inv st \<longrightarrow> registry_inv (notifier_register e ob st) \<and>
                          registry_inv (notifier_remove eq e c st)) \<and>
   (observerMap st e = None \<and> eq (context ob) (context ob) \<longrightarrow>
      observerMap (notifier_remove eq e (context ob) (notifier_register e ob st)) e = None)"
proof (intro conjI impI)
  show "registry_inv (snd (run eq acts ([], notifier_init)))"
    using registry_inv_run[of "([], notifier_init)" eq acts] by (simp add: registry_inv_init)
next
  assume "registry_inv st"
  then show "registry_inv (notifier_register e ob st)" by (rule registry_inv_register)
next
  assume "registry_inv st"
  then show "registry_inv (notifier_remove eq e c st)" by (rule registry_inv_remove)
next
  assume "observerMap st e = None \<and> eq (context ob) (context ob)"
  then show "observerMap (notifier_remove eq e (context ob) (notifier_register e ob st)) e = None"
    by (simp add: register_then_remove_absent)
qed

theorem table_has_no_empty_entry_witness:
  "registry_inv (notifier_init :: (nat, nat, nat) notifier) \<and>
   registry_inv (notifier_register ''tick'' \<lparr>fn = 10, context = 1\<rparr>
                   (notifier_init :: (nat, nat, nat) notifier)) \<and>
   observerMap (notifier_init :: (nat, nat, nat) notifier) ''tick'' = None \<and>
   context \<lparr>fn = 10::nat, context = 1::nat\<rparr> = context \<lparr>fn = 10::nat, context = 1::nat\<rparr> \<and>
   observerMap (notifier_remove (=) ''tick'' (context \<lparr>fn = 10::nat, context = 1::nat\<rparr>)
      (notifier_register ''tick'' \<lparr>fn = 10, context = 1\<rparr>
         (notifier_init :: (nat, nat, nat) notifier))) ''tick'' = None"
proof -
  have i: "registry_inv (notifier_init :: (nat, nat, nat) notifier)"
    by (simp add: registry_inv_def notifier_init_def)
  have a: "observerMap (notifier_init :: (nat, nat, nat) notifier) ''tick'' = None"
    by (simp add: notifier_init_def)
  from i a
    table_has_no_empty_entry[of "(=)" "[]" "notifier_init :: (nat, nat, nat) notifier" "''tick''"
          "\<lparr>fn = 10::nat, context = 1::nat\<rparr>" 1]
  show ?thesis by auto
qed



text \<open>The removal evaluated on that table: the last observer is swapped into the first
  slot, found to match as well, and the array is cut to the one that stays.\<close>

lemma remove_evaluated:
  "observers_of (notifier_remove (=) ''tick'' 1
      (fold (notifier_register ''tick'')
         [\<lparr>fn = 10::nat, context = 1::nat\<rparr>, \<lparr>fn = 20, context = 2\<rparr>, \<lparr>fn = 30, context = 1\<rparr>]
         (notifier_init :: (nat, nat, nat) notifier))) ''tick''
   = [\<lparr>fn = 20, context = 2\<rparr>]"
  by code_simp

section \<open>Properties of the modules\<close>

subsection \<open>The \<open>__super\<close> loop\<close>


lemma super_step_other:
  "v \<noteq> JFun f \<Longrightarrow> super_step B (k, v) supers f = supers f"
  by (cases v) (auto simp: super_step_def Let_def)


lemma super_step_self:
  "super_step B (k, JFun f) supers f =
     (if k \<noteq> ''constructor'' \<and> isFunction (lookup B k) \<and> lookup B k \<noteq> JFun f
      then Some (lookup B k) else supers f)"
  by (auto simp: super_step_def Let_def)


text \<open>Whatever functions share, a \<open>__super\<close> that the loop changes ends as the base's
  callable under one of the names that hold the function.\<close>

lemma fold_super_step_changed:
  "fold (super_step B) ps supers f \<noteq> supers f \<Longrightarrow>
   \<exists>k. (k, JFun f) \<in> set ps \<and> k \<noteq> ''constructor'' \<and> isFunction (lookup B k) \<and>
       lookup B k \<noteq> JFun f \<and> fold (super_step B) ps supers f = Some (lookup B k)"
proof (induction ps arbitrary: supers)
  case Nil
  then show ?case by simp
next
  case (Cons p ps)
  obtain k v where p: "p = (k, v)" by (cases p)
  show ?case
  proof (cases "fold (super_step B) ps (super_step B p supers) f = super_step B p supers f")
    case False
    from Cons.IH[OF False] show ?thesis by auto
  next
    case True
    with Cons.prems have ch: "super_step B p supers f \<noteq> supers f" by simp
    then have v: "v = JFun f" using p super_step_other[of v f B k supers] by auto
    with ch p have "k \<noteq> ''constructor'' \<and> isFunction (lookup B k) \<and> lookup B k \<noteq> JFun f \<and>
                    super_step B p supers f = Some (lookup B k)"
      by (auto simp: super_step_self split: if_splits)
    then show ?thesis using True p v by auto
  qed
qed


lemma mvc_module_super_of:
  "super_of (snd (mvc_module q base proto st)) =
   fold (super_step (prototype base)) (prototype (fst (mvc_module q base proto st))) (super_of st)"
  by (simp add: mvc_module_def Let_def split: prod.splits)

lemma module_super_changed:
  "super_of (snd (mvc_module q base proto st)) f \<noteq> super_of st f \<Longrightarrow>
   \<exists>k. (k, JFun f) \<in> set (prototype (fst (mvc_module q base proto st))) \<and>
       k \<noteq> ''constructor'' \<and> isFunction (lookup (prototype base) k) \<and>
       lookup (prototype base) k \<noteq> JFun f \<and>
       super_of (snd (mvc_module q base proto st)) f = Some (lookup (prototype base) k)"
  unfolding mvc_module_super_of by (rule fold_super_step_changed)

subsection \<open>Fresh objects of the deep \<open>extend\<close>\<close>

lemma plain_addrs_JObj: "plain_addrs (JObj a kd ps) = insert a (props_addrs ps)"
  by (auto simp: props_addrs_def)

lemma props_addrs_Nil: "props_addrs [] = {}"
  by (simp add: props_addrs_def)

lemma props_addrs_Cons: "props_addrs ((k, v) # ps) = plain_addrs v \<union> props_addrs ps"
  by (simp add: props_addrs_def)

lemma props_addrs_assign: "props_addrs (assign k v ps) \<subseteq> plain_addrs v \<union> props_addrs ps"
proof (induction ps)
  case Nil
  then show ?case by (simp add: props_addrs_Nil props_addrs_Cons)
next
  case (Cons p ps)
  obtain k' v' where p: "p = (k', v')" by (cases p)
  show ?case using Cons p by (auto simp: props_addrs_Cons)
qed

lemma plain_addrs_lookup: "plain_addrs (lookup ps k) \<subseteq> props_addrs ps"
proof (cases "map_of ps k")
  case None
  then show ?thesis by (simp add: lookup_def)
next
  case (Some v)
  then have "(k, v) \<in> set ps" by (rule map_of_SomeD)
  then have "plain_addrs v \<subseteq> props_addrs ps" by (force simp: props_addrs_def)
  with Some show ?thesis by (simp add: lookup_def)
qed

lemma props_addrs_props_of: "props_addrs (props_of v) \<subseteq> plain_addrs v"
  by (cases v) (auto simp: plain_addrs_JObj props_addrs_Nil simp del: plain_addrs.simps)

lemma clone_for_spec:
  assumes "clone_for nxt kd src = (c, cp, n1)"
  shows "nxt \<le> n1 \<and> insert c (props_addrs cp) \<subseteq> plain_addrs src \<union> {nxt..<n1}"
proof (cases src)
  case (JObj b kd' sprops)
  with assms show ?thesis
    by (auto simp: plain_addrs_JObj props_addrs_Nil simp del: plain_addrs.simps split: if_splits)
qed (use assms in \<open>auto simp: props_addrs_Nil\<close>)

declare extend_props.simps [simp del]

lemma extend_props_fresh:
  "extend_props nxt t target options = (nxt', res) \<Longrightarrow>
     nxt \<le> nxt' \<and> props_addrs res \<subseteq> props_addrs target \<union> {nxt..<nxt'}"
proof (induction nxt t target options arbitrary: nxt' res rule: extend_props.induct)
  case (1 nxt t target)
  then show ?case by (simp add: extend_props.simps)
next
  case (2 nxt t target key copy options)
  show ?case
  proof (cases "address_of copy = Some t")
    case True
    with "2.prems" have "extend_props nxt t target options = (nxt', res)"
      by (simp add: extend_props.simps)
    then show ?thesis using "2.IH"(1)[OF True] by simp
  next
    case same: False
    show ?thesis
    proof (cases "isPlain copy")
      case True
      obtain c cp n1 where cl: "clone_for nxt (kind_of copy) (lookup target key) = (c, cp, n1)"
        by (cases "clone_for nxt (kind_of copy) (lookup target key)") auto
      obtain n2 merged where inner: "extend_props n1 c cp (props_of copy) = (n2, merged)"
        by (cases "extend_props n1 c cp (props_of copy)")
      have outer: "extend_props n2 t (assign key (JObj c (kind_of copy) merged) target) options
                   = (nxt', res)"
        using "2.prems" same True cl inner by (simp add: extend_props.simps)
      have c1: "nxt \<le> n1" and c2: "insert c (props_addrs cp) \<subseteq> plain_addrs (lookup target key) \<union> {nxt..<n1}"
        using clone_for_spec[OF cl] by auto
      have i: "n1 \<le> n2 \<and> props_addrs merged \<subseteq> props_addrs cp \<union> {n1..<n2}"
        using "2.IH"(2)[OF same True cl[symmetric] refl inner] .
      have o: "n2 \<le> nxt' \<and> props_addrs res \<subseteq>
                 props_addrs (assign key (JObj c (kind_of copy) merged) target) \<union> {n2..<nxt'}"
        using "2.IH"(3)[OF same True cl[symmetric] refl inner[symmetric] outer] .
      have l: "plain_addrs (lookup target key) \<subseteq> props_addrs target"
        by (rule plain_addrs_lookup)
      have a: "props_addrs (assign key (JObj c (kind_of copy) merged) target) \<subseteq>
               insert c (props_addrs merged) \<union> props_addrs target"
        using props_addrs_assign[of key "JObj c (kind_of copy) merged" target]
        by (simp add: plain_addrs_JObj del: plain_addrs.simps)
      have "nxt \<le> nxt'" using c1 i o by simp
      moreover have "props_addrs res \<subseteq> props_addrs target \<union> {nxt..<nxt'}"
      proof -
        have iv1: "{nxt..<n1} \<subseteq> {nxt..<nxt'}" using i o by auto
        have iv2: "{n1..<n2} \<subseteq> {nxt..<nxt'}" using c1 o by auto
        have iv3: "{n2..<nxt'} \<subseteq> {nxt..<nxt'}" using c1 i by auto
        have s1: "insert c (props_addrs cp) \<subseteq> props_addrs target \<union> {nxt..<nxt'}"
          using c2 l iv1 by blast
        have s2: "props_addrs merged \<subseteq> props_addrs target \<union> {nxt..<nxt'}"
          using i s1 iv2 by blast
        have s3: "props_addrs (assign key (JObj c (kind_of copy) merged) target)
                  \<subseteq> props_addrs target \<union> {nxt..<nxt'}"
          using a s1 s2 by blast
        show ?thesis using o s3 iv3 by blast
      qed
      ultimately show ?thesis by simp
    next
      case np: False
      show ?thesis
      proof (cases "copy = JUndefined")
        case True
        with "2.prems" same np have "extend_props nxt t target options = (nxt', res)"
          by (simp add: extend_props.simps)
        then show ?thesis using "2.IH"(5)[OF same np] True by simp
      next
        case False
        with "2.prems" same np
        have e: "extend_props nxt t (assign key copy target) options = (nxt', res)"
          by (simp add: extend_props.simps)
        have "plain_addrs copy = {}" using np by (cases copy) auto
        then have "props_addrs (assign key copy target) \<subseteq> props_addrs target"
          using props_addrs_assign[of key copy target] by simp
        then show ?thesis using "2.IH"(4)[OF same np False e] by auto
      qed
    qed
  qed
qed

lemma lookup_assign: "lookup (assign k v ps) k' = (if k' = k then v else lookup ps k')"
  by (induction ps) (auto simp: lookup_def)

lemma extend_props_key:
  "extend_props nxt t target options = (nxt', res) \<Longrightarrow>
     plain_addrs (lookup res k) \<subseteq> plain_addrs (lookup target k) \<union> {nxt..<nxt'}"
proof (induction nxt t target options arbitrary: nxt' res rule: extend_props.induct)
  case (1 nxt t target)
  then show ?case by (simp add: extend_props.simps)
next
  case (2 nxt t target key copy options)
  show ?case
  proof (cases "address_of copy = Some t")
    case True
    with "2.prems" have "extend_props nxt t target options = (nxt', res)"
      by (simp add: extend_props.simps)
    then show ?thesis using "2.IH"(1)[OF True] by simp
  next
    case same: False
    show ?thesis
    proof (cases "isPlain copy")
      case True
      obtain c cp n1 where cl: "clone_for nxt (kind_of copy) (lookup target key) = (c, cp, n1)"
        by (cases "clone_for nxt (kind_of copy) (lookup target key)") auto
      obtain n2 merged where inner: "extend_props n1 c cp (props_of copy) = (n2, merged)"
        by (cases "extend_props n1 c cp (props_of copy)")
      have outer: "extend_props n2 t (assign key (JObj c (kind_of copy) merged) target) options
                   = (nxt', res)"
        using "2.prems" same True cl inner by (simp add: extend_props.simps)
      have c1: "nxt \<le> n1"
        and c2: "insert c (props_addrs cp) \<subseteq> plain_addrs (lookup target key) \<union> {nxt..<n1}"
        using clone_for_spec[OF cl] by auto
      have i: "n1 \<le> n2 \<and> props_addrs merged \<subseteq> props_addrs cp \<union> {n1..<n2}"
        using extend_props_fresh[OF inner] .
      have o1: "n2 \<le> nxt'" using extend_props_fresh[OF outer] by simp
      have o: "plain_addrs (lookup res k) \<subseteq>
                 plain_addrs (lookup (assign key (JObj c (kind_of copy) merged) target) k)
                 \<union> {n2..<nxt'}"
        using "2.IH"(3)[OF same True cl[symmetric] refl inner[symmetric] outer] .
      have iv1: "{nxt..<n1} \<subseteq> {nxt..<nxt'}" using i o1 by auto
      have iv2: "{n1..<n2} \<subseteq> {nxt..<nxt'}" using c1 o1 by auto
      have iv3: "{n2..<nxt'} \<subseteq> {nxt..<nxt'}" using c1 i by auto
      show ?thesis
      proof (cases "k = key")
        case True
        have "plain_addrs (lookup (assign key (JObj c (kind_of copy) merged) target) k)
              = insert c (props_addrs merged)"
          using True by (simp add: lookup_assign plain_addrs_JObj del: plain_addrs.simps)
        moreover have "insert c (props_addrs merged) \<subseteq>
                       plain_addrs (lookup target key) \<union> {nxt..<nxt'}"
          using c2 i iv1 iv2 by blast
        ultimately show ?thesis using o iv3 True by blast
      next
        case False
        then have "lookup (assign key (JObj c (kind_of copy) merged) target) k = lookup target k"
          by (simp add: lookup_assign)
        then show ?thesis using o iv3 by auto
      qed
    next
      case np: False
      show ?thesis
      proof (cases "copy = JUndefined")
        case True
        with "2.prems" same np have "extend_props nxt t target options = (nxt', res)"
          by (simp add: extend_props.simps)
        then show ?thesis using "2.IH"(5)[OF same np] True by simp
      next
        case False
        with "2.prems" same np
        have e: "extend_props nxt t (assign key copy target) options = (nxt', res)"
          by (simp add: extend_props.simps)
        have pc: "plain_addrs copy = {}" using np by (cases copy) auto
        have "plain_addrs (lookup (assign key copy target) k) \<subseteq> plain_addrs (lookup target k)"
          using pc by (simp add: lookup_assign)
        then show ?thesis using "2.IH"(4)[OF same np False e] by blast
      qed
    qed
  qed
qed

lemma createModule_fresh:
  assumes "Module_createModule c nm opts nxt = (i, n')"
  shows "nxt < n' \<and> plain_addrs (ioptions i) \<subseteq> {nxt..<n'}"
proof -
  obtain n1 p1 where e1:
    "extend_props (Suc nxt) nxt [] (props_of (defaults c)) = (n1, p1)"
    by (cases "extend_props (Suc nxt) nxt [] (props_of (defaults c))")
  obtain n2 p2 where e2: "extend_props n1 nxt p1 (props_of opts) = (n2, p2)"
    by (cases "extend_props n1 nxt p1 (props_of opts)")
  from assms e1 e2 have i: "i = \<lparr>iname = nm, ioptions = JObj nxt PlainObject p2\<rparr>" and n: "n' = n2"
    by (simp_all add: Module_createModule_def)
  from extend_props_fresh[OF e1] have f1: "Suc nxt \<le> n1" "props_addrs p1 \<subseteq> {Suc nxt..<n1}"
    by (simp_all add: props_addrs_Nil)
  from extend_props_fresh[OF e2] have f2: "n1 \<le> n2" "props_addrs p2 \<subseteq> props_addrs p1 \<union> {n1..<n2}"
    by simp_all
  have "props_addrs p2 \<subseteq> {nxt..<n2}"
  proof
    fix x assume "x \<in> props_addrs p2"
    with f2 have "x \<in> props_addrs p1 \<or> x \<in> {n1..<n2}" by auto
    then show "x \<in> {nxt..<n2}" using f1 f2 by auto
  qed
  then show ?thesis using i n f1 f2 by (simp add: plain_addrs_JObj del: plain_addrs.simps)
qed

lemma module_options_chain:
  assumes e0: "extend_props (Suc (Suc b)) (Suc b) [] src0 = (n1, opts)"
    and e1: "extend_props (Suc n1) b (assign ''options'' (JObj (Suc b) PlainObject opts) bprops) S
             = (n2, p1)"
    and e2: "extend_props n2 b p1 proto = (n3, p2)"
  shows "plain_addrs (lookup p2 ''options'') \<subseteq> {b..<n3}"
    and "props_addrs p2 \<subseteq> props_addrs bprops \<union> {b..<n3}"
proof -
  let ?bp = "assign ''options'' (JObj (Suc b) PlainObject opts) bprops"
  from extend_props_fresh[OF e0] have f0: "Suc (Suc b) \<le> n1" "props_addrs opts \<subseteq> {Suc (Suc b)..<n1}"
    by (simp_all add: props_addrs_Nil)
  from extend_props_fresh[OF e1] have f1: "Suc n1 \<le> n2" "props_addrs p1 \<subseteq> props_addrs ?bp \<union> {Suc n1..<n2}"
    by simp_all
  from extend_props_fresh[OF e2] have f2: "n2 \<le> n3" "props_addrs p2 \<subseteq> props_addrs p1 \<union> {n2..<n3}"
    by simp_all
  have o0: "plain_addrs (JObj (Suc b) PlainObject opts) \<subseteq> {b..<n1}"
    using f0 by (auto simp: plain_addrs_JObj simp del: plain_addrs.simps)
  have k0: "plain_addrs (lookup ?bp ''options'') \<subseteq> {b..<n1}"
    using o0 by (simp add: lookup_assign del: plain_addrs.simps)
  have k1: "plain_addrs (lookup p1 ''options'') \<subseteq> plain_addrs (lookup ?bp ''options'') \<union> {Suc n1..<n2}"
    by (rule extend_props_key[OF e1])
  have k2: "plain_addrs (lookup p2 ''options'') \<subseteq> plain_addrs (lookup p1 ''options'') \<union> {n2..<n3}"
    by (rule extend_props_key[OF e2])
  have iv0: "{b..<n1} \<subseteq> {b..<n3}" using f1 f2 by auto
  have iv1: "{Suc n1..<n2} \<subseteq> {b..<n3}" using f0 f2 by auto
  have iv2: "{n2..<n3} \<subseteq> {b..<n3}" using f0 f1 by auto
  show "plain_addrs (lookup p2 ''options'') \<subseteq> {b..<n3}"
    using k0 k1 k2 iv0 iv1 iv2 by blast
  have a: "props_addrs ?bp \<subseteq> plain_addrs (JObj (Suc b) PlainObject opts) \<union> props_addrs bprops"
    by (rule props_addrs_assign)
  show "props_addrs p2 \<subseteq> props_addrs bprops \<union> {b..<n3}"
    using a o0 f1(2) f2(2) iv0 iv1 iv2 by blast
qed

lemma module_defaults_fresh:
  "plain_addrs (defaults (fst (mvc_module q base proto st)))
     \<subseteq> {next_address st..<next_address (snd (mvc_module q base proto st))}"
  unfolding mvc_module_def defaults_def Let_def
  by (auto simp del: plain_addrs.simps split: prod.splits dest: module_options_chain(1))

lemma module_prototype_addrs:
  "props_addrs (prototype (fst (mvc_module q base proto st)))
     \<subseteq> props_addrs (prototype base) \<union>
       {next_address st..<next_address (snd (mvc_module q base proto st))}"
  unfolding mvc_module_def Let_def
  by (auto simp del: plain_addrs.simps split: prod.splits dest: module_options_chain(2))

lemma extend_props_mono: "extend_props nxt t target options = (nxt', res) \<Longrightarrow> nxt \<le> nxt'"
  using extend_props_fresh by blast

lemma module_next_address:
  "next_address st < next_address (snd (mvc_module q base proto st))"
proof -
  have "b < n3"
    if "extend_props (Suc (Suc b)) (Suc b) [] src0 = (n1, opts)"
      "extend_props (Suc n1) b bp S = (n2, p1)"
      "extend_props n2 b p1 proto = (n3, p2)"
    for b n1 opts n2 p1 n3 p2 src0 bp S
    using extend_props_mono[OF that(1)] extend_props_mono[OF that(2)] extend_props_mono[OF that(3)]
    by simp
  then show ?thesis
    unfolding mvc_module_def Let_def by (auto split: prod.splits)
qed

lemma put_absent: "a \<notin> plain_addrs t \<Longrightarrow> put a k v t = t"
proof (induction t)
  case (JObj b kd ps)
  have "map (map_prod id (put a k v)) ps = ps"
  proof (rule map_idI)
    fix p assume p: "p \<in> set ps"
    obtain k' v' where pp: "p = (k', v')" by (cases p)
    have "a \<notin> plain_addrs v'" using JObj.prems p pp by force
    moreover have "v' \<in> Basic_BNFs.snds p" using pp by simp
    ultimately have "put a k v v' = v'" using JObj.IH p by blast
    then show "map_prod id (put a k v) p = p" using pp by simp
  qed
  then show ?case using JObj.prems by simp
qed simp_all

lemma createModule_fresh':
  "snd (Module_createModule c nm opts nxt) > nxt \<and>
   plain_addrs (ioptions (fst (Module_createModule c nm opts nxt)))
     \<subseteq> {nxt..<snd (Module_createModule c nm opts nxt)}"
  using createModule_fresh[of c nm opts nxt] by (cases "Module_createModule c nm opts nxt") simp

lemma ex_defaults: "defaults (fst Counter_loaded) =
   JObj 12 PlainObject
          [(''count'', JPrim ''0''),
           (''limits'', JObj 16 PlainObject [(''max'', JPrim ''10'')]),
           (''onChange'', JFun 9)]"
  by code_simp

lemma ex_i1: "Module_createModule (fst Counter_loaded) ''a'' five 20 =
  (\<lparr>iname = ''a'',
     ioptions =
       JObj 20 PlainObject
        [(''count'', JPrim ''5''),
         (''limits'', JObj 21 PlainObject [(''max'', JPrim ''10'')]),
         (''onChange'', JFun 9)]\<rparr>,
  22)"
  by code_simp

lemma ex_i2: "Module_createModule (fst Counter_loaded) ''b'' nine 22 =
  (\<lparr>iname = ''b'',
     ioptions =
       JObj 22 PlainObject
        [(''count'', JPrim ''9''),
         (''limits'', JObj 23 PlainObject [(''max'', JPrim ''10''), (''min'', JPrim ''1'')]),
         (''onChange'', JFun 9)]\<rparr>,
  24)"
  by code_simp


subsection \<open>The claims about the modules\<close>

text \<open>
  Claim C4. When the function that calls \<open>_super\<close> has a function recorded as its
  \<open>__super\<close>, \<open>_super\<close> applies that function to the current instance and to the arguments
  it was given, and returns its result. When the caller has no function as its
  \<open>__super\<close>, and also when there is no calling function, \<open>_super\<close> fails with
  \<open>NoSuperImplementation\<close>.
\<close>

theorem super_applies_recorded_base_method:
  "(supers caller = Some (JFun g) \<longrightarrow>
      Module_super apply supers (Some caller) this args = Inr (apply g this args)) \<and>
   ((\<forall>g'. supers caller \<noteq> Some (JFun g')) \<longrightarrow>
      Module_super apply supers (Some caller) this args = Inl NoSuperImplementation) \<and>
   Module_super apply supers None this args = Inl NoSuperImplementation"
  by (auto simp: Module_super_def split: option.splits jsval.splits)

text \<open>After the script has defined \<open>Proxy\<close>: a \<open>_super\<close> call from the proxy's
  \<open>_createModule\<close> (function 8) applies the module's \<open>_createModule\<close> (function 3) to the
  same instance and arguments; a call from \<open>getData\<close> (function 7), which overrides
  nothing, fails.\<close>

theorem super_applies_recorded_base_method_witness:
  "super_of (snd Proxy_loaded) 8 = Some (JFun 3) \<and>
   Module_super (\<lambda>g this args. (g, this, args)) (super_of (snd Proxy_loaded)) (Some 8)
      ''counterProxy'' [''counterProxy'', ''{}'']
     = Inr (3, ''counterProxy'', [''counterProxy'', ''{}'']) \<and>
   super_of (snd Proxy_loaded) 7 = None \<and>
   Module_super (\<lambda>g this args. (g, this, args)) (super_of (snd Proxy_loaded)) (Some 7)
      ''counterProxy'' ([] :: string list)
     = (Inl NoSuperImplementation :: error + nat \<times> string \<times> string list)"
proof -
  have a: "super_of (snd Proxy_loaded) 8 = Some (JFun 3)" by code_simp
  have b: "super_of (snd Proxy_loaded) 7 = None" by code_simp
  from a b
    super_applies_recorded_base_method
      [of "super_of (snd Proxy_loaded)" 8 3 "\<lambda>g this args. (g, this, args)"
          "''counterProxy''" "[''counterProxy'', ''{}'']"]
    super_applies_recorded_base_method
      [of "super_of (snd Proxy_loaded)" 7 3 "\<lambda>g this args. (g, this, args)"
          "''counterProxy''" "[] :: string list"]
  show ?thesis by simp
qed




text \<open>
  Claim C8 says that the options of two instances of one definition and the definition's
  default options share no references. The deep \<open>extend\<close> clones plain objects and
  arrays only: a function or any other object among the options is assigned as it is and
  is then one object in the defaults and in every instance. What holds is this. The
  plain objects and arrays in the options of a derived definition are all allocated by the
  derivation, so none of them is in the base's options. The plain objects and arrays in
  the options of an instance are all allocated by its construction: two instances
  constructed one after the other share none, and share none with the definition's
  defaults or with the overriding options they were given; an assignment to a property
  of any of them leaves the other instance's options and the defaults as they were.
  Objects that exist before a derivation or a construction have addresses below the
  allocation counter.
\<close>

theorem options_share_no_plain_objects:
  "plain_addrs (defaults (fst (mvc_module q base proto st)))
     \<subseteq> {next_address st..<next_address (snd (mvc_module q base proto st))} \<and>
   (plain_addrs (defaults base) \<subseteq> {..<next_address st} \<longrightarrow>
      plain_addrs (defaults (fst (mvc_module q base proto st))) \<inter> plain_addrs (defaults base) = {}) \<and>
   (plain_addrs (defaults c) \<union> plain_addrs o1 \<union> plain_addrs o2 \<subseteq> {..<n} \<longrightarrow>
      (let i1 = fst (Module_createModule c nm1 o1 n);
           i2 = fst (Module_createModule c nm2 o2 (snd (Module_createModule c nm1 o1 n)))
       in plain_addrs (ioptions i1) \<inter> plain_addrs (ioptions i2) = {} \<and>
          plain_addrs (ioptions i1) \<inter>
            (plain_addrs (defaults c) \<union> plain_addrs o1 \<union> plain_addrs o2) = {} \<and>
          plain_addrs (ioptions i2) \<inter>
            (plain_addrs (defaults c) \<union> plain_addrs o1 \<union> plain_addrs o2) = {} \<and>
          (\<forall>a \<in> plain_addrs (ioptions i1). \<forall>k v.
              put a k v (ioptions i2) = ioptions i2 \<and> put a k v (defaults c) = defaults c) \<and>
          (\<forall>a \<in> plain_addrs (ioptions i2). \<forall>k v.
              put a k v (ioptions i1) = ioptions i1 \<and> put a k v (defaults c) = defaults c)))"
proof (intro conjI impI)
  show "plain_addrs (defaults (fst (mvc_module q base proto st)))
     \<subseteq> {next_address st..<next_address (snd (mvc_module q base proto st))}"
    by (rule module_defaults_fresh)
next
  assume "plain_addrs (defaults base) \<subseteq> {..<next_address st}"
  then show "plain_addrs (defaults (fst (mvc_module q base proto st))) \<inter>
             plain_addrs (defaults base) = {}"
    using module_defaults_fresh[of q base proto st] by fastforce
next
  assume old: "plain_addrs (defaults c) \<union> plain_addrs o1 \<union> plain_addrs o2 \<subseteq> {..<n}"
  let ?n1 = "snd (Module_createModule c nm1 o1 n)"
  let ?i1 = "fst (Module_createModule c nm1 o1 n)"
  let ?i2 = "fst (Module_createModule c nm2 o2 ?n1)"
  let ?n2 = "snd (Module_createModule c nm2 o2 ?n1)"
  have f1: "n < ?n1" "plain_addrs (ioptions ?i1) \<subseteq> {n..<?n1}"
    using createModule_fresh'[of n c nm1 o1] by simp_all
  have f2: "plain_addrs (ioptions ?i2) \<subseteq> {?n1..<?n2}"
    using createModule_fresh'[of ?n1 c nm2 o2] by simp
  have d12: "plain_addrs (ioptions ?i1) \<inter> plain_addrs (ioptions ?i2) = {}"
    using f1 f2 by fastforce
  have d1: "plain_addrs (ioptions ?i1) \<inter>
            (plain_addrs (defaults c) \<union> plain_addrs o1 \<union> plain_addrs o2) = {}"
    using f1 old by fastforce
  have d2: "plain_addrs (ioptions ?i2) \<inter>
            (plain_addrs (defaults c) \<union> plain_addrs o1 \<union> plain_addrs o2) = {}"
    using f1 f2 old by fastforce
  have p1: "\<forall>a \<in> plain_addrs (ioptions ?i1). \<forall>k v.
              put a k v (ioptions ?i2) = ioptions ?i2 \<and> put a k v (defaults c) = defaults c"
  proof (intro ballI allI)
    fix a k v assume a: "a \<in> plain_addrs (ioptions ?i1)"
    have "a \<notin> plain_addrs (ioptions ?i2)" using a d12 by blast
    moreover have "a \<notin> plain_addrs (defaults c)" using a d1 by blast
    ultimately show "put a k v (ioptions ?i2) = ioptions ?i2 \<and> put a k v (defaults c) = defaults c"
      by (simp add: put_absent)
  qed
  have p2: "\<forall>a \<in> plain_addrs (ioptions ?i2). \<forall>k v.
              put a k v (ioptions ?i1) = ioptions ?i1 \<and> put a k v (defaults c) = defaults c"
  proof (intro ballI allI)
    fix a k v assume a: "a \<in> plain_addrs (ioptions ?i2)"
    have "a \<notin> plain_addrs (ioptions ?i1)" using a d12 by blast
    moreover have "a \<notin> plain_addrs (defaults c)" using a d2 by blast
    ultimately show "put a k v (ioptions ?i1) = ioptions ?i1 \<and> put a k v (defaults c) = defaults c"
      by (simp add: put_absent)
  qed
  show "let i1 = fst (Module_createModule c nm1 o1 n);
           i2 = fst (Module_createModule c nm2 o2 (snd (Module_createModule c nm1 o1 n)))
       in plain_addrs (ioptions i1) \<inter> plain_addrs (ioptions i2) = {} \<and>
          plain_addrs (ioptions i1) \<inter>
            (plain_addrs (defaults c) \<union> plain_addrs o1 \<union> plain_addrs o2) = {} \<and>
          plain_addrs (ioptions i2) \<inter>
            (plain_addrs (defaults c) \<union> plain_addrs o1 \<union> plain_addrs o2) = {} \<and>
          (\<forall>a \<in> plain_addrs (ioptions i1). \<forall>k v.
              put a k v (ioptions i2) = ioptions i2 \<and> put a k v (defaults c) = defaults c) \<and>
          (\<forall>a \<in> plain_addrs (ioptions i2). \<forall>k v.
              put a k v (ioptions i1) = ioptions i1 \<and> put a k v (defaults c) = defaults c)"
    unfolding Let_def using d12 d1 d2 p1 p2 by blast
qed

text \<open>
  For \<open>examples.Counter\<close> and two instances with the overrides \<open>{ count: 5 }\<close> and
  \<open>{ count: 9, limits: { min: 1 } }\<close>: the first instance's options are the new objects 20
  and 21, the second's the new objects 22 and 23, the defaults the objects 12 and 16;
  writing \<open>max\<close> in the first instance's \<open>limits\<close> (object 21) changes neither the second
  instance's options nor the defaults.
\<close>

theorem options_share_no_plain_objects_witness:
  "plain_addrs (defaults (fst Counter_loaded)) \<union> plain_addrs five \<union> plain_addrs nine \<subseteq> {..<20} \<and>
   plain_addrs (ioptions (fst (Module_createModule (fst Counter_loaded) ''a'' five 20))) = {20, 21} \<and>
   plain_addrs (ioptions (fst (Module_createModule (fst Counter_loaded) ''b'' nine
       (snd (Module_createModule (fst Counter_loaded) ''a'' five 20))))) = {22, 23} \<and>
   plain_addrs (ioptions (fst (Module_createModule (fst Counter_loaded) ''a'' five 20))) \<inter>
   plain_addrs (ioptions (fst (Module_createModule (fst Counter_loaded) ''b'' nine
       (snd (Module_createModule (fst Counter_loaded) ''a'' five 20))))) = {} \<and>
   plain_addrs (ioptions (fst (Module_createModule (fst Counter_loaded) ''a'' five 20))) \<inter>
   (plain_addrs (defaults (fst Counter_loaded)) \<union> plain_addrs five \<union> plain_addrs nine) = {} \<and>
   put 21 ''max'' (JPrim ''99'')
      (ioptions (fst (Module_createModule (fst Counter_loaded) ''b'' nine
         (snd (Module_createModule (fst Counter_loaded) ''a'' five 20)))))
     = ioptions (fst (Module_createModule (fst Counter_loaded) ''b'' nine
         (snd (Module_createModule (fst Counter_loaded) ''a'' five 20)))) \<and>
   put 21 ''max'' (JPrim ''99'') (defaults (fst Counter_loaded)) = defaults (fst Counter_loaded) \<and>
   plain_addrs (defaults (fst Counter_loaded)) \<inter> plain_addrs (defaults Module) = {}"
proof -
  have h: "plain_addrs (defaults (fst Counter_loaded)) \<union> plain_addrs five \<union> plain_addrs nine
           \<subseteq> {..<20}"
    by (simp add: ex_defaults five_def nine_def)
  have a: "plain_addrs (ioptions (fst (Module_createModule (fst Counter_loaded) ''a'' five 20)))
           = {20, 21}"
    by (simp add: ex_i1)
  have b: "plain_addrs (ioptions (fst (Module_createModule (fst Counter_loaded) ''b'' nine
       (snd (Module_createModule (fst Counter_loaded) ''a'' five 20))))) = {22, 23}"
    by (simp add: ex_i1 ex_i2)
  have m: "plain_addrs (defaults Module) \<subseteq> {..<next_address (mvc_init\<lparr>next_address := 11\<rparr>)}"
    by (simp add: defaults_def Module_def lookup_def mvc_init_def)
  have c: "21 \<in> plain_addrs (ioptions (fst (Module_createModule (fst Counter_loaded) ''a'' five 20)))"
    by (simp add: a)
  from h a b m c
    options_share_no_plain_objects
      [of "''examples.Counter''" Module Counter_proto "mvc_init\<lparr>next_address := 11\<rparr>"
          "fst Counter_loaded" five nine 20 "''a''" "''b''"]
  show ?thesis unfolding Let_def Counter_loaded_def[symmetric] by blast
qed

text \<open>
  The claim as it is written fails on the same example: the callback \<open>onChange\<close> of the
  default options (function 9) is an object of the first instance's options, of the
  second instance's options and of the definition's defaults.
\<close>

theorem function_in_options_is_shared:
  "9 \<in> refs (ioptions (fst (Module_createModule (fst Counter_loaded) ''a'' five 20))) \<and>
   9 \<in> refs (ioptions (fst (Module_createModule (fst Counter_loaded) ''b'' nine
              (snd (Module_createModule (fst Counter_loaded) ''a'' five 20))))) \<and>
   9 \<in> refs (defaults (fst Counter_loaded))"
  by (simp add: ex_i1 ex_i2 ex_defaults)

section \<open>Properties of the constructors and of the registries\<close>

text \<open>
  Claim C9. \<open>$.mvc.Notification( name, body )\<close> called without \<open>new\<close>, whether its
  receiver is \<open>undefined\<close> or an object that is not a notification (\<open>$.mvc\<close> itself in
  that call), returns an object with the fields \<open>name\<close> and \<open>body\<close> equal to the arguments,
  the same as \<open>new $.mvc.Notification( name, body )\<close> gives. \<open>$.mvc.Observer( fn, context )\<close>
  returns in the same way an object with the fields \<open>fn\<close> and \<open>context\<close>.
\<close>

theorem constructors_called_without_new:
  "mvc_Notification Undefined nm bd = Returned \<lparr>name = nm, body = bd\<rparr> \<and>
   mvc_Notification (Object h False) nm bd = Returned \<lparr>name = nm, body = bd\<rparr> \<and>
   Returned (new_Notification nm bd) = mvc_Notification (Object h False) nm bd \<and>
   mvc_Observer Undefined f c = Returned \<lparr>fn = f, context = c\<rparr> \<and>
   mvc_Observer (Object h False) f c = Returned \<lparr>fn = f, context = c\<rparr> \<and>
   Returned (new_Observer f c) = mvc_Observer (Object h False) f c"
  by (simp add: new_Notification_def new_Observer_def)

theorem constructors_called_without_new_witness:
  "mvc_Notification (Object True False) ''tick'' (7::nat) = Returned \<lparr>name = ''tick'', body = 7\<rparr> \<and>
   Returned (new_Notification ''tick'' (7::nat)) = mvc_Notification (Object True False) ''tick'' 7 \<and>
   mvc_Observer Undefined (10::nat) (1::nat) = Returned \<lparr>fn = 10, context = 1\<rparr>"
  using constructors_called_without_new[of "''tick''" "7::nat" True "10::nat" "1::nat"] by simp

text \<open>The empty registry, a store under the instance's own name and a deletion keep every
  instance under the name it reports; so do the two removals.\<close>

lemma names_agree_empty: "names_agree Map.empty"
  by (simp add: names_agree_def)

lemma names_agree_store: "names_agree m \<Longrightarrow> getName p = nm \<Longrightarrow> names_agree (m(nm \<mapsto> p))"
  by (simp add: names_agree_def)

lemma names_agree_delete: "names_agree m \<Longrightarrow> names_agree (m(k := None))"
  by (simp add: names_agree_def)

lemma names_agree_model_remove:
  "names_agree (proxyMap st) \<Longrightarrow> names_agree (proxyMap (fst (model_remove r st)))"
  by (auto simp: model_remove_def Let_def names_agree_delete split: option.splits)

lemma names_agree_view_remove:
  "names_agree (mediatorMap (fst vs)) \<Longrightarrow>
   names_agree (mediatorMap (fst (fst (view_remove eq r vs))))"
  by (cases vs) (auto simp: view_remove_def Let_def names_agree_delete split: option.splits)




text \<open>The view's removal also takes the mediator's observers off the notifier.\<close>

lemma view_remove_removes_observers:
  "observerMap (snd (fst (view_remove (=) (ByName ''counterMediator'')
          (\<lparr>mediatorMap = [''counterMediator'' \<mapsto> counterMediator], mediatorGuid = 0\<rparr>,
           notifier_register ''counterchange'' \<lparr>fn = 1::nat, context = counterMediator\<rparr>
             (notifier_init :: (nat, mediator, nat) notifier))))) ''counterchange'' = None"
  by code_simp

end
